theory Spec2Isabelle
  imports Main
begin

section \<open>Component classes of retriever.py\<close>

text \<open>
  retriever.py declares two component classes, both with the single base
  PolymorphicComponent, which is imported from the module components.base. The classes
  above PolymorphicComponent are declared in that other module; they are taken as a
  parameter \<open>up\<close>, the names of the classes that follow PolymorphicComponent in its
  method resolution order.
\<close>

datatype component = KnowledgeRetriever | RAGEngine

datatype py_class = Component component | PolymorphicComponent | Imported string

text \<open>The class attribute \<open>__kind__\<close> set in each class body.\<close>

fun kind :: "component \<Rightarrow> string" where
  "kind KnowledgeRetriever = ''KnowledgeRetriever''"
| "kind RAGEngine = ''RAGEngine''"

text \<open>The bases named in each class statement.\<close>

fun bases :: "component \<Rightarrow> py_class list" where
  "bases KnowledgeRetriever = [PolymorphicComponent]"
| "bases RAGEngine = [PolymorphicComponent]"

text \<open>
  The method resolution order of a class with the bases above: the class, then each base
  followed by that base's own linearisation.
\<close>

fun mro_of_base :: "string list \<Rightarrow> py_class \<Rightarrow> py_class list" where
  "mro_of_base up PolymorphicComponent = PolymorphicComponent # map Imported up"
| "mro_of_base up b = [b]"

definition mro :: "string list \<Rightarrow> component \<Rightarrow> py_class list" where
  "mro up c = Component c # concat (map (mro_of_base up) (bases c))"

definition issubclass :: "string list \<Rightarrow> component \<Rightarrow> component \<Rightarrow> bool" where
  "issubclass up c d = (Component d \<in> set (mro up c))"

text \<open>
  A method as its \<open>def\<close> line declares it: the name, whether it is \<open>async def\<close>, whether
  it carries \<open>@abc.abstractmethod\<close>, the parameters after \<open>self\<close> with their annotations,
  and the annotation of the result.
\<close>

record method_decl =
  method_name :: string
  is_async :: bool
  is_abstract :: bool
  params :: "(string \<times> string) list"
  returns :: string

fun declared_methods :: "component \<Rightarrow> method_decl list" where
  "declared_methods KnowledgeRetriever =
     [\<lparr>method_name = ''retrieve'', is_async = True, is_abstract = True,
       params = [(''context'', ''RetrievalContext'')],
       returns = ''list[RetrievalResultEntry]''\<rparr>]"
| "declared_methods RAGEngine =
     [\<lparr>method_name = ''on_knowledge_base_create'', is_async = True, is_abstract = False,
       params = [(''kb_id'', ''str''), (''config'', ''dict'')], returns = ''None''\<rparr>,
      \<lparr>method_name = ''on_knowledge_base_delete'', is_async = True, is_abstract = False,
       params = [(''kb_id'', ''str'')], returns = ''None''\<rparr>,
      \<lparr>method_name = ''ingest'', is_async = True, is_abstract = True,
       params = [(''context'', ''IngestionContext'')], returns = ''IngestionResult''\<rparr>,
      \<lparr>method_name = ''delete_document'', is_async = True, is_abstract = True,
       params = [(''kb_id'', ''str''), (''document_id'', ''str'')], returns = ''bool''\<rparr>,
      \<lparr>method_name = ''retrieve'', is_async = True, is_abstract = True,
       params = [(''context'', ''RetrievalContext'')], returns = ''RetrievalResponse''\<rparr>,
      \<lparr>method_name = ''get_creation_settings_schema'', is_async = False, is_abstract = True,
       params = [], returns = ''dict''\<rparr>,
      \<lparr>method_name = ''get_retrieval_settings_schema'', is_async = False, is_abstract = True,
       params = [], returns = ''dict''\<rparr>]"

text \<open>What a caller sees of a method before it returns: everything but the result annotation.\<close>

definition signature_of :: "method_decl \<Rightarrow> string \<times> bool \<times> bool \<times> (string \<times> string) list" where
  "signature_of m = (method_name m, is_async m, is_abstract m, params m)"

definition method_names :: "component \<Rightarrow> string list" where
  "method_names c = map method_name (declared_methods c)"

definition abstract_names :: "component \<Rightarrow> string list" where
  "abstract_names c = map method_name (filter is_abstract (declared_methods c))"

section \<open>Default lifecycle hooks of RAGEngine\<close>

text \<open>
  The errors named in the docstrings of the two files, and the operations that
  host_services.py declares on the embedder, the vector store and HostServices.
\<close>

datatype error =
    IngestionError | ParsingError | ChunkingError | HostServiceError | RetrievalError
  | EmbeddingError | VectorStoreError | CollectionNotFoundError | FileServiceError

datatype host_call =
    Call_embed_documents | Call_embed_query
  | Call_upsert | Call_search | Call_delete | Call_count
  | Call_get_file_stream | Call_close_file_stream

text \<open>
  What a method of an engine can read and change: the attributes of the engine object,
  the vector store behind the host services, and the host-service operations invoked so
  far, oldest first.
\<close>

record ('e, 'v) world =
  engine_state :: 'e
  vector_store :: 'v
  host_calls :: "host_call list"

text \<open>
  The two hooks of RAGEngine are not abstract and their bodies are \<open>pass\<close>: awaiting one
  returns \<open>None\<close> (the unit value) and touches nothing.
\<close>

definition on_knowledge_base_create ::
    "string \<Rightarrow> 'c \<Rightarrow> ('e, 'v) world \<Rightarrow> (error + unit) \<times> ('e, 'v) world" where
  "on_knowledge_base_create kb_id config w = (Inr (), w)"

definition on_knowledge_base_delete ::
    "string \<Rightarrow> ('e, 'v) world \<Rightarrow> (error + unit) \<times> ('e, 'v) world" where
  "on_knowledge_base_delete kb_id w = (Inr (), w)"

text \<open>
  The body of a class that stands ahead of RAGEngine in the method resolution order of a
  plugin's engine class (the engine class itself, a mixin, an intermediate base): the
  names its namespace binds, each once, with whether the bound object is marked by
  \<open>@abc.abstractmethod\<close>, and the functions it binds to the two hook names where it binds
  them. The same record describes the attributes set on an engine instance itself, whose
  marks play no part.
\<close>

record ('c, 'e, 'v) class_body =
  namespace :: "(string \<times> bool) list"
  create_body :: "string \<Rightarrow> 'c \<Rightarrow> ('e, 'v) world \<Rightarrow> (error + unit) \<times> ('e, 'v) world"
  delete_body :: "string \<Rightarrow> ('e, 'v) world \<Rightarrow> (error + unit) \<times> ('e, 'v) world"

definition binds :: "string \<Rightarrow> ('c, 'e, 'v) class_body \<Rightarrow> bool" where
  "binds n b = (n \<in> fst ` set (namespace b))"

text \<open>
  Lookup of a hook on an engine instance: a function set on the instance itself
  (\<open>inst\<close>), else the first class ahead of RAGEngine in the method resolution order that
  binds the hook name, else RAGEngine's own method. \<open>before\<close> lists the class bodies
  ahead of RAGEngine, the engine class first.
\<close>

definition lookup_on_knowledge_base_create ::
    "('c, 'e, 'v) class_body \<Rightarrow> ('c, 'e, 'v) class_body list \<Rightarrow>
     string \<Rightarrow> 'c \<Rightarrow> ('e, 'v) world \<Rightarrow> (error + unit) \<times> ('e, 'v) world" where
  "lookup_on_knowledge_base_create inst before =
     (case find (binds ''on_knowledge_base_create'') (inst # before) of
        Some b \<Rightarrow> create_body b
      | None \<Rightarrow> on_knowledge_base_create)"

definition lookup_on_knowledge_base_delete ::
    "('c, 'e, 'v) class_body \<Rightarrow> ('c, 'e, 'v) class_body list \<Rightarrow>
     string \<Rightarrow> ('e, 'v) world \<Rightarrow> (error + unit) \<times> ('e, 'v) world" where
  "lookup_on_knowledge_base_delete inst before =
     (case find (binds ''on_knowledge_base_delete'') (inst # before) of
        Some b \<Rightarrow> delete_body b
      | None \<Rightarrow> on_knowledge_base_delete)"

text \<open>The namespace of RAGEngine itself, read off its declared methods.\<close>

definition RAGEngine_namespace :: "(string \<times> bool) list" where
  "RAGEngine_namespace = map (\<lambda>m. (method_name m, is_abstract m)) (declared_methods RAGEngine)"

text \<open>
  The namespaces of the whole method resolution order: the classes ahead of RAGEngine,
  RAGEngine, and the classes that follow it (\<open>after\<close>: PolymorphicComponent and what
  stands above it, declared in the other module).
\<close>

definition mro_namespaces ::
    "('c, 'e, 'v) class_body list \<Rightarrow> (string \<times> bool) list list \<Rightarrow> (string \<times> bool) list list" where
  "mro_namespaces before after = map namespace before @ [RAGEngine_namespace] @ after"

text \<open>The first binding of a name along a list of namespaces, as attribute lookup finds it.\<close>

fun find_binding :: "string \<Rightarrow> (string \<times> bool) list list \<Rightarrow> bool option" where
  "find_binding n [] = None"
| "find_binding n (ns # rest) =
     (case map_of ns n of Some a \<Rightarrow> Some a | None \<Rightarrow> find_binding n rest)"

text \<open>
  \<open>__abstractmethods__\<close> of the engine class as \<open>ABCMeta\<close> computes it: the names bound
  anywhere in the method resolution order whose first binding is marked abstract. This
  covers the abstract methods of RAGEngine and of the classes after it that nothing
  ahead implements, and those a class ahead of RAGEngine declares or declares again.
  \<open>ABCMeta\<close> refuses to instantiate the class while a name is left; every name it keeps
  has its first binding marked abstract, so an empty list here means that it refuses
  nothing, as does a class hierarchy without \<open>ABCMeta\<close>.
\<close>

definition abstractmethods ::
    "('c, 'e, 'v) class_body list \<Rightarrow> (string \<times> bool) list list \<Rightarrow> string list" where
  "abstractmethods before after =
     remdups (filter (\<lambda>n. find_binding n (mro_namespaces before after) = Some True)
       (concat (map (map fst) (mro_namespaces before after))))"

definition can_instantiate ::
    "('c, 'e, 'v) class_body list \<Rightarrow> (string \<times> bool) list list \<Rightarrow> bool" where
  "can_instantiate before after = (abstractmethods before after = [])"

text \<open>
  The smallest engine class: its body binds the five abstract names of RAGEngine to
  plain methods and binds neither hook. The hook bodies on record are never looked up,
  since the namespace does not name them.
\<close>

definition minimal_engine :: "(unit, nat, nat) class_body" where
  "minimal_engine =
     \<lparr>namespace = [(''ingest'', False), (''delete_document'', False), (''retrieve'', False),
        (''get_creation_settings_schema'', False), (''get_retrieval_settings_schema'', False)],
      create_body = (\<lambda>kb_id config w. (Inl IngestionError, w)),
      delete_body = (\<lambda>kb_id w. (Inl IngestionError, w))\<rparr>"

section \<open>The vector store behind VectorStoreProtocol\<close>

text \<open>
  host_services.py declares \<open>upsert\<close>, \<open>search\<close>, \<open>delete\<close> and \<open>count\<close> on
  VectorStoreProtocol with the body \<open>...\<close>: the store that answers them belongs to the
  host and is not among the source files. The definitions of this section follow the
  specification's description of these operations.
\<close>

text \<open>
  Modelled from the spec: the stored data, which the source files do not declare. An
  entry is a vector id, its vector and its metadata; a collection is a list of entries;
  the store maps a collection id to its collection. \<open>available\<close> is false while the
  store fails operationally, when every operation raises VectorStoreError.
\<close>

type_synonym ('v, 'm) entry = "string \<times> 'v \<times> 'm"

record ('v, 'm) store =
  collections :: "string \<rightharpoonup> ('v, 'm) entry list"
  available :: bool

definition entries_of :: "('v, 'm) store \<Rightarrow> string \<Rightarrow> ('v, 'm) entry list" where
  "entries_of s collection_id =
     (case collections s collection_id of None \<Rightarrow> [] | Some c \<Rightarrow> c)"

text \<open>
  Modelled from the spec: the meaning of the \<open>filters\<close> argument of \<open>search\<close> and
  \<open>count\<close>, missing from the source. A filter is a predicate on the metadata; with no
  filter the whole collection is meant.
\<close>

definition matches :: "('m \<Rightarrow> bool) option \<Rightarrow> ('v, 'm) entry \<Rightarrow> bool" where
  "matches filters e = (case filters of None \<Rightarrow> True | Some f \<Rightarrow> f (snd (snd e)))"

text \<open>
  Modelled from the spec: which entries a \<open>delete\<close> call removes, missing from the
  source. It deletes by id set, by filter predicate, or both, with union semantics when
  both are given.
\<close>

definition selected ::
    "string list option \<Rightarrow> ('m \<Rightarrow> bool) option \<Rightarrow> ('v, 'm) entry \<Rightarrow> bool" where
  "selected ids filters e =
     ((case ids of None \<Rightarrow> False | Some xs \<Rightarrow> fst e \<in> set xs)
      \<or> (case filters of None \<Rightarrow> False | Some f \<Rightarrow> f (snd (snd e))))"

text \<open>
  Modelled from the spec: the body of VectorStoreProtocol.delete, which the source
  declares as a stub. It removes the selected entries of the collection and returns the
  count actually removed; it raises VectorStoreError on an operational failure and
  CollectionNotFoundError when the collection is not accessible.
\<close>

definition delete ::
    "('v, 'm) store \<Rightarrow> string \<Rightarrow> string list option \<Rightarrow> ('m \<Rightarrow> bool) option
     \<Rightarrow> error + (int \<times> ('v, 'm) store)" where
  "delete s collection_id ids filters =
     (if \<not> available s then Inl VectorStoreError
      else case collections s collection_id of
        None \<Rightarrow> Inl CollectionNotFoundError
      | Some c \<Rightarrow>
          Inr (int (length (filter (selected ids filters) c)),
               s\<lparr>collections :=
                   (collections s)(collection_id \<mapsto>
                     filter (\<lambda>e. \<not> selected ids filters e) c)\<rparr>))"

text \<open>
  Modelled from the spec: the body of VectorStoreProtocol.search, which the source
  declares as a stub. The filter narrows the candidates before ranking; the result holds
  at most \<open>top_k\<close> entries as id, score and metadata, best first. The score is the
  host's \<open>distance\<close> between the query vector and the entry's vector, smaller being
  better; the specification leaves the convention to the host.
\<close>

definition search ::
    "('v \<Rightarrow> 'v \<Rightarrow> 'r::linorder) \<Rightarrow> ('v, 'm) store \<Rightarrow> string \<Rightarrow> 'v \<Rightarrow> int
     \<Rightarrow> ('m \<Rightarrow> bool) option \<Rightarrow> error + (string \<times> 'r \<times> 'm) list" where
  "search distance s collection_id query_vector top_k filters =
     (if \<not> available s then Inl VectorStoreError
      else case collections s collection_id of
        None \<Rightarrow> Inl CollectionNotFoundError
      | Some c \<Rightarrow>
          Inr (map (\<lambda>e. (fst e, distance query_vector (fst (snd e)), snd (snd e)))
                (take (nat top_k)
                  (sort_key (\<lambda>e. distance query_vector (fst (snd e)))
                    (filter (matches filters) c)))))"

text \<open>
  Modelled from the spec: the body of VectorStoreProtocol.count, which the source
  declares as a stub. It returns the number of entries matching the filter, or of the
  whole collection with no filter.
\<close>

definition count ::
    "('v, 'm) store \<Rightarrow> string \<Rightarrow> ('m \<Rightarrow> bool) option \<Rightarrow> error + int" where
  "count s collection_id filters =
     (if \<not> available s then Inl VectorStoreError
      else case collections s collection_id of
        None \<Rightarrow> Inl CollectionNotFoundError
      | Some c \<Rightarrow> Inr (int (length (filter (matches filters) c))))"

text \<open>
  A store with one collection of three entries (vectors are integers here, metadata the
  document id), and the same store once the entry \<open>a\<close> is gone.
\<close>

definition demo :: "(int, string) store" where
  "demo =
     \<lparr>collections =
        [''kb1'' \<mapsto> [(''a'', 1, ''doc1''), (''b'', 5, ''doc1''), (''c'', 9, ''doc2'')]],
      available = True\<rparr>"

definition demo_after :: "(int, string) store" where
  "demo_after = demo\<lparr>collections :=
      (collections demo)(''kb1'' \<mapsto> [(''b'', 5, ''doc1''), (''c'', 9, ''doc2'')])\<rparr>"

text \<open>
  Two engine classes that \<open>ABCMeta\<close> refuses: one declares an abstract method of its own
  beside the five it implements, the other declares \<open>ingest\<close> abstract again. And a mixin
  that binds the create hook to a method that raises.
\<close>

definition unfinished_engine :: "(unit, nat, nat) class_body" where
  "unfinished_engine = minimal_engine\<lparr>namespace := (''warm_up'', True) # namespace minimal_engine\<rparr>"

definition redeclaring_engine :: "(unit, nat, nat) class_body" where
  "redeclaring_engine =
     minimal_engine\<lparr>namespace := (''ingest'', True) # tl (namespace minimal_engine)\<rparr>"

definition setup_mixin :: "(unit, nat, nat) class_body" where
  "setup_mixin =
     \<lparr>namespace = [(''on_knowledge_base_create'', False)],
      create_body = (\<lambda>kb_id config w. (Inl HostServiceError, w)),
      delete_body = (\<lambda>kb_id w. (Inr (), w))\<rparr>"

text \<open>An engine instance with one attribute of its own, which is not a hook.\<close>

definition plain_instance :: "(unit, nat, nat) class_body" where
  "plain_instance =
     \<lparr>namespace = [(''plugin'', False)],
      create_body = (\<lambda>kb_id config w. (Inl IngestionError, w)),
      delete_body = (\<lambda>kb_id w. (Inl IngestionError, w))\<rparr>"

section \<open>Properties of the component classes\<close>

lemma abstract_names_RAGEngine:
  "abstract_names RAGEngine =
     [''ingest'', ''delete_document'', ''retrieve'',
      ''get_creation_settings_schema'', ''get_retrieval_settings_schema'']"
  by (simp add: abstract_names_def)

lemma method_names_shared:
  "set (method_names KnowledgeRetriever) \<inter> set (method_names RAGEngine) = {''retrieve''}"
  by (simp add: method_names_def)

lemma mro_component:
  "mro up c = [Component c, PolymorphicComponent] @ map Imported up"
  by (cases c) (simp_all add: mro_def)

lemma issubclass_iff: "issubclass up c d \<longleftrightarrow> c = d"
  by (auto simp add: issubclass_def mro_component)


lemma signatures_included:
  "set (map signature_of (declared_methods KnowledgeRetriever))
     \<subseteq> set (map signature_of (declared_methods RAGEngine))"
  by (simp add: signature_of_def)

lemma retrieve_returns:
  "map returns (filter (\<lambda>m. method_name m = ''retrieve'') (declared_methods KnowledgeRetriever))
     = [''list[RetrievalResultEntry]'']"
  "map returns (filter (\<lambda>m. method_name m = ''retrieve'') (declared_methods RAGEngine))
     = [''RetrievalResponse'']"
  by simp_all

text \<open>
  C9, as the claim states it, fails on its "disjoint capability sets": both classes
  declare \<open>retrieve\<close>, asynchronous, abstract and with the one parameter
  \<open>context: RetrievalContext\<close>.
\<close>

theorem capability_sets_overlap:
  "(''retrieve'', True, True, [(''context'', ''RetrievalContext'')])
     \<in> set (map signature_of (declared_methods KnowledgeRetriever))
         \<inter> set (map signature_of (declared_methods RAGEngine))
   \<and> set (method_names KnowledgeRetriever) \<inter> set (method_names RAGEngine) \<noteq> {}"
proof -
  have "(''retrieve'', True, True, [(''context'', ''RetrievalContext'')])
      \<in> set (map signature_of (declared_methods KnowledgeRetriever))"
    by (simp add: signature_of_def)
  moreover have "(''retrieve'', True, True, [(''context'', ''RetrievalContext'')])
      \<in> set (map signature_of (declared_methods RAGEngine))"
    by (simp add: signature_of_def)
  moreover have "set (method_names KnowledgeRetriever) \<inter> set (method_names RAGEngine) \<noteq> {}"
    unfolding method_names_shared by simp
  ultimately show ?thesis by simp
qed

text \<open>
  C9, amended. The two component classes carry the kind tags "KnowledgeRetriever" and
  "RAGEngine", which differ, so the tag alone tells which of the two a component is (some
  function recovers the class from the tag). Neither class is a subclass of the other,
  whatever classes stand above PolymorphicComponent. Their capability sets are not
  disjoint: the one method of KnowledgeRetriever, \<open>retrieve\<close>, is declared by RAGEngine
  too, with the same name, parameter, \<open>async\<close> and abstract marking, so that every
  method name and every signature of KnowledgeRetriever is one of RAGEngine; the two
  declarations differ in the result annotation alone, a list of RetrievalResultEntry
  against a RetrievalResponse.
\<close>

theorem component_kinds_distinct:
  "kind KnowledgeRetriever = ''KnowledgeRetriever''
   \<and> kind RAGEngine = ''RAGEngine''
   \<and> kind KnowledgeRetriever \<noteq> kind RAGEngine
   \<and> (\<exists>dispatch. \<forall>c. dispatch (kind c) = c)
   \<and> \<not> issubclass up KnowledgeRetriever RAGEngine
   \<and> \<not> issubclass up RAGEngine KnowledgeRetriever
   \<and> method_names KnowledgeRetriever = [''retrieve'']
   \<and> set (method_names KnowledgeRetriever) \<subseteq> set (method_names RAGEngine)
   \<and> set (map signature_of (declared_methods KnowledgeRetriever))
        \<subseteq> set (map signature_of (declared_methods RAGEngine))
   \<and> map returns (filter (\<lambda>m. method_name m = ''retrieve'') (declared_methods KnowledgeRetriever))
        = [''list[RetrievalResultEntry]'']
   \<and> map returns (filter (\<lambda>m. method_name m = ''retrieve'') (declared_methods RAGEngine))
        = [''RetrievalResponse'']"
proof -
  have inj: "inj kind"
  proof (rule injI)
    fix x y
    assume "kind x = kind y"
    then show "x = y"
      by (cases x; cases y) simp_all
  qed
  have "\<forall>c. the_inv kind (kind c) = c"
    using inj by (simp add: the_inv_f_f)
  then have disp: "\<exists>dispatch. \<forall>c. dispatch (kind c) = c"
    by blast
  have tags: "kind KnowledgeRetriever \<noteq> kind RAGEngine"
    by simp
  have sub1: "\<not> issubclass up KnowledgeRetriever RAGEngine"
    by (simp add: issubclass_iff)
  have sub2: "\<not> issubclass up RAGEngine KnowledgeRetriever"
    by (simp add: issubclass_iff)
  have names: "method_names KnowledgeRetriever = [''retrieve'']"
    by (simp add: method_names_def)
  have incl: "set (method_names KnowledgeRetriever) \<subseteq> set (method_names RAGEngine)"
    by (simp add: method_names_def)
  show ?thesis
    by (intro conjI kind.simps tags disp sub1 sub2 names incl signatures_included
        retrieve_returns)
qed

section \<open>Properties of the default hooks\<close>

lemma find_binding_append:
  "find_binding n (xs @ ys) =
     (case find_binding n xs of Some a \<Rightarrow> Some a | None \<Rightarrow> find_binding n ys)"
  by (induction xs) (simp_all split: option.splits)

lemma find_binding_unbound:
  assumes "\<forall>b \<in> set before. \<not> binds n b"
  shows "find_binding n (map namespace before) = None"
  using assms
proof (induction before)
  case Nil
  then show ?case by simp
next
  case (Cons b before)
  then have "map_of (namespace b) n = None"
    by (simp add: binds_def map_of_eq_None_iff)
  with Cons show ?case by simp
qed

lemma find_unbound:
  assumes "\<not> binds n inst" and "\<forall>b \<in> set before. \<not> binds n b"
  shows "find (binds n) (inst # before) = None"
  using assms by (simp add: find_None_iff)

lemma RAGEngine_namespace_eq:
  "RAGEngine_namespace =
     [(''on_knowledge_base_create'', False), (''on_knowledge_base_delete'', False),
      (''ingest'', True), (''delete_document'', True), (''retrieve'', True),
      (''get_creation_settings_schema'', True), (''get_retrieval_settings_schema'', True)]"
  by (simp add: RAGEngine_namespace_def)

lemma method_names_RAGEngine:
  "method_names RAGEngine =
     [''on_knowledge_base_create'', ''on_knowledge_base_delete''] @ abstract_names RAGEngine"
  by (simp add: method_names_def abstract_names_def)

lemma map_of_RAGEngine_namespace:
  "''on_knowledge_base_create'' \<noteq> n \<Longrightarrow> ''on_knowledge_base_delete'' \<noteq> n
     \<Longrightarrow> n \<notin> set (abstract_names RAGEngine) \<Longrightarrow> map_of RAGEngine_namespace n = None"
  "map_of RAGEngine_namespace ''on_knowledge_base_create'' = Some False"
  "map_of RAGEngine_namespace ''on_knowledge_base_delete'' = Some False"
  by (simp_all add: RAGEngine_namespace_eq abstract_names_RAGEngine)

lemma nothing_abstract:
  assumes nc: "\<forall>b \<in> set before. \<not> binds ''on_knowledge_base_create'' b"
    and nd: "\<forall>b \<in> set before. \<not> binds ''on_knowledge_base_delete'' b"
    and five: "\<forall>n \<in> set (abstract_names RAGEngine).
        find_binding n (map namespace before) = Some False"
    and rest: "\<forall>n. n \<notin> set (method_names RAGEngine)
        \<longrightarrow> find_binding n (map namespace before @ after) \<noteq> Some True"
  shows "find_binding n (mro_namespaces before after) \<noteq> Some True"
proof -
  let ?b = "map namespace before"
  have split: "find_binding m (mro_namespaces before after) =
      (case find_binding m ?b of Some a \<Rightarrow> Some a
       | None \<Rightarrow> (case map_of RAGEngine_namespace m of Some a \<Rightarrow> Some a
                   | None \<Rightarrow> find_binding m after))" for m
    by (simp add: mro_namespaces_def find_binding_append split: option.splits)
  consider (create) "n = ''on_knowledge_base_create''"
    | (delete) "n = ''on_knowledge_base_delete''"
    | (five) "n \<in> set (abstract_names RAGEngine)"
    | (other) "''on_knowledge_base_create'' \<noteq> n" "''on_knowledge_base_delete'' \<noteq> n"
        "n \<notin> set (abstract_names RAGEngine)"
    by blast
  then show ?thesis
  proof cases
    case create
    then show ?thesis
      using find_binding_unbound [OF nc] by (simp add: split map_of_RAGEngine_namespace)
  next
    case delete
    then show ?thesis
      using find_binding_unbound [OF nd] by (simp add: split map_of_RAGEngine_namespace)
  next
    case five
    then show ?thesis
      using assms(3) by (simp add: split)
  next
    case other
    then have "n \<notin> set (method_names RAGEngine)"
      by (simp add: method_names_RAGEngine)
    then have "find_binding n (?b @ after) \<noteq> Some True"
      using rest by blast
    moreover have "map_of RAGEngine_namespace n = None"
      using other by (rule map_of_RAGEngine_namespace(1))
    ultimately show ?thesis
      by (simp add: split find_binding_append cong: option.case_cong)
  qed
qed

lemma own_abstract_method_refused: "\<not> can_instantiate [unfinished_engine] []"
  by (simp add: can_instantiate_def abstractmethods_def mro_namespaces_def
      unfinished_engine_def minimal_engine_def RAGEngine_namespace_eq)

lemma redeclared_abstract_method_refused: "\<not> can_instantiate [redeclaring_engine] []"
  by (simp add: can_instantiate_def abstractmethods_def mro_namespaces_def
      redeclaring_engine_def minimal_engine_def RAGEngine_namespace_eq)

lemma hook_overridden_in_mixin:
  "lookup_on_knowledge_base_create plain_instance [minimal_engine, setup_mixin] kb_id config w
     = (Inl HostServiceError, w)"
  by (simp add: lookup_on_knowledge_base_create_def binds_def minimal_engine_def
      setup_mixin_def plain_instance_def)

lemma hook_set_on_instance:
  "lookup_on_knowledge_base_create setup_mixin [minimal_engine] kb_id config w
     = (Inl HostServiceError, w)"
  by (simp add: lookup_on_knowledge_base_create_def binds_def setup_mixin_def)

text \<open>
  C10. When neither the engine instance nor a class ahead of RAGEngine in the method
  resolution order of its class binds a hook name, \<open>on_knowledge_base_create\<close> and
  \<open>on_knowledge_base_delete\<close> are RAGEngine's own: for every knowledge base id and configuration they return \<open>None\<close>
  and leave the engine state, the vector store and the record of host-service calls as
  they were. The hooks are not among RAGEngine's abstract methods, which are the five
  \<open>ingest\<close>, \<open>delete_document\<close>, \<open>retrieve\<close> and the two schema getters. When those five
  are implemented ahead of RAGEngine and no other name is left abstract, nothing is left
  in \<open>__abstractmethods__\<close> and the class can be instantiated without a hook of its own.
\<close>

theorem default_hooks_are_noops:
  assumes ic: "\<not> binds ''on_knowledge_base_create'' inst"
    and id: "\<not> binds ''on_knowledge_base_delete'' inst"
    and nc: "\<forall>b \<in> set before. \<not> binds ''on_knowledge_base_create'' b"
    and nd: "\<forall>b \<in> set before. \<not> binds ''on_knowledge_base_delete'' b"
    and five: "\<forall>n \<in> set (abstract_names RAGEngine).
        find_binding n (map namespace before) = Some False"
    and rest: "\<forall>n. n \<notin> set (method_names RAGEngine)
        \<longrightarrow> find_binding n (map namespace before @ after) \<noteq> Some True"
  shows "lookup_on_knowledge_base_create inst before kb_id config w = (Inr (), w)
   \<and> lookup_on_knowledge_base_delete inst before kb_id w = (Inr (), w)
   \<and> host_calls (snd (lookup_on_knowledge_base_create inst before kb_id config w)) = host_calls w
   \<and> vector_store (snd (lookup_on_knowledge_base_create inst before kb_id config w)) = vector_store w
   \<and> engine_state (snd (lookup_on_knowledge_base_create inst before kb_id config w)) = engine_state w
   \<and> ''on_knowledge_base_create'' \<notin> set (abstract_names RAGEngine)
   \<and> ''on_knowledge_base_delete'' \<notin> set (abstract_names RAGEngine)
   \<and> abstract_names RAGEngine =
        [''ingest'', ''delete_document'', ''retrieve'',
         ''get_creation_settings_schema'', ''get_retrieval_settings_schema'']
   \<and> ''on_knowledge_base_create'' \<notin> set (abstractmethods before after)
   \<and> ''on_knowledge_base_delete'' \<notin> set (abstractmethods before after)
   \<and> abstractmethods before after = []
   \<and> can_instantiate before after"
proof -
  have create: "lookup_on_knowledge_base_create inst before kb_id config w = (Inr (), w)"
    unfolding lookup_on_knowledge_base_create_def find_unbound [OF ic nc]
    by (simp add: on_knowledge_base_create_def)
  have delete: "lookup_on_knowledge_base_delete inst before kb_id w = (Inr (), w)"
    unfolding lookup_on_knowledge_base_delete_def find_unbound [OF id nd]
    by (simp add: on_knowledge_base_delete_def)
  have "\<forall>n. find_binding n (mro_namespaces before after) \<noteq> Some True"
    using nothing_abstract [OF nc nd five rest] by blast
  then have none: "abstractmethods before after = []"
    by (simp add: abstractmethods_def filter_empty_conv)
  then have inst: "can_instantiate before after"
    by (simp add: can_instantiate_def)
  have a1: "''on_knowledge_base_create'' \<notin> set (abstractmethods before after)"
    and a2: "''on_knowledge_base_delete'' \<notin> set (abstractmethods before after)"
    by (simp_all add: none)
  have n1: "''on_knowledge_base_create'' \<notin> set (abstract_names RAGEngine)"
    and n2: "''on_knowledge_base_delete'' \<notin> set (abstract_names RAGEngine)"
    by (simp_all add: abstract_names_RAGEngine)
  have h1: "host_calls (snd (lookup_on_knowledge_base_create inst before kb_id config w)) = host_calls w"
    by (simp only: create snd_conv)
  have h2: "vector_store (snd (lookup_on_knowledge_base_create inst before kb_id config w)) = vector_store w"
    by (simp only: create snd_conv)
  have h3: "engine_state (snd (lookup_on_knowledge_base_create inst before kb_id config w)) = engine_state w"
    by (simp only: create snd_conv)
  show ?thesis
    by (intro conjI create delete h1 h2 h3 n1 n2 abstract_names_RAGEngine a1 a2 none inst)
qed

theorem default_hooks_are_noops_witness:
  "\<not> binds ''on_knowledge_base_create'' plain_instance
   \<and> \<not> binds ''on_knowledge_base_delete'' plain_instance
   \<and> \<not> binds ''on_knowledge_base_create'' minimal_engine
   \<and> \<not> binds ''on_knowledge_base_delete'' minimal_engine
   \<and> find_binding ''ingest'' (map namespace [minimal_engine]) = Some False
   \<and> lookup_on_knowledge_base_create plain_instance [minimal_engine] ''kb1'' ()
        \<lparr>engine_state = 7, vector_store = 3, host_calls = [Call_upsert]\<rparr>
      = (Inr (), \<lparr>engine_state = 7, vector_store = 3, host_calls = [Call_upsert]\<rparr>)
   \<and> lookup_on_knowledge_base_delete plain_instance [minimal_engine] ''kb1''
        \<lparr>engine_state = 7, vector_store = 3, host_calls = [Call_upsert]\<rparr>
      = (Inr (), \<lparr>engine_state = 7, vector_store = 3, host_calls = [Call_upsert]\<rparr>)
   \<and> abstractmethods [minimal_engine] [] = []
   \<and> can_instantiate [minimal_engine] []"
proof -
  have b1: "\<not> binds ''on_knowledge_base_create'' minimal_engine"
    by (simp add: binds_def minimal_engine_def)
  have b2: "\<not> binds ''on_knowledge_base_delete'' minimal_engine"
    by (simp add: binds_def minimal_engine_def)
  have i1: "\<not> binds ''on_knowledge_base_create'' plain_instance"
    by (simp add: binds_def plain_instance_def)
  have i2: "\<not> binds ''on_knowledge_base_delete'' plain_instance"
    by (simp add: binds_def plain_instance_def)
  have a1: "\<forall>b \<in> set [minimal_engine]. \<not> binds ''on_knowledge_base_create'' b"
    using b1 by simp
  have a2: "\<forall>b \<in> set [minimal_engine]. \<not> binds ''on_knowledge_base_delete'' b"
    using b2 by simp
  have a3: "\<forall>n \<in> set (abstract_names RAGEngine).
      find_binding n (map namespace [minimal_engine]) = Some False"
    by (simp add: abstract_names_RAGEngine minimal_engine_def)
  have a4: "\<forall>n. n \<notin> set (method_names RAGEngine)
      \<longrightarrow> find_binding n (map namespace [minimal_engine] @ []) \<noteq> Some True"
    by (simp add: minimal_engine_def)
  have i: "find_binding ''ingest'' (map namespace [minimal_engine]) = Some False"
    by (simp add: minimal_engine_def)
  note t = default_hooks_are_noops [OF i1 i2 a1 a2 a3 a4, of "''kb1''" "()"
      "\<lparr>engine_state = 7, vector_store = 3, host_calls = [Call_upsert]\<rparr>"]
  show ?thesis
    by (intro conjI i1 i2 b1 b2 i t [THEN conjunct1] t [THEN conjunct2, THEN conjunct1]
        t [THEN conjunct2, THEN conjunct2, THEN conjunct2, THEN conjunct2, THEN conjunct2,
           THEN conjunct2, THEN conjunct2, THEN conjunct2, THEN conjunct2, THEN conjunct2,
           THEN conjunct1]
        t [THEN conjunct2, THEN conjunct2, THEN conjunct2, THEN conjunct2, THEN conjunct2,
           THEN conjunct2, THEN conjunct2, THEN conjunct2, THEN conjunct2, THEN conjunct2,
           THEN conjunct2])
qed

section \<open>Deleting from the vector store\<close>

lemma delete_Inr:
  assumes "delete s cid ids f = Inr (n, s')"
  shows "available s" and "collections s cid = Some (entries_of s cid)"
    and "n = int (length (filter (selected ids f) (entries_of s cid)))"
    and "s' = s\<lparr>collections := (collections s)(cid \<mapsto>
            filter (\<lambda>e. \<not> selected ids f e) (entries_of s cid))\<rparr>"
  using assms
  by (auto simp add: delete_def entries_of_def split: if_splits option.splits)

lemma delete_entries:
  assumes "delete s cid ids f = Inr (n, s')"
  shows "entries_of s' cid = filter (\<lambda>e. \<not> selected ids f e) (entries_of s cid)"
    and "available s'" and "collections s' cid = Some (entries_of s' cid)"
  using delete_Inr [OF assms] by (simp_all add: entries_of_def)

lemma delete_count_removed:
  assumes "delete s cid ids f = Inr (n, s')"
  shows "n = int (length (entries_of s cid)) - int (length (entries_of s' cid))"
proof -
  let ?c = "entries_of s cid"
  have "length (filter (selected ids f) ?c) + length (filter (\<lambda>e. \<not> selected ids f e) ?c)
      = length ?c"
    by (rule sum_length_filter_compl)
  then show ?thesis
    using delete_Inr(3) [OF assms] delete_entries(1) [OF assms] by simp
qed

lemma delete_again:
  assumes "delete s cid ids f = Inr (n, s')"
  shows "delete s' cid ids f = Inr (0, s')"
proof -
  let ?c' = "entries_of s' cid"
  have c': "?c' = filter (\<lambda>e. \<not> selected ids f e) (entries_of s cid)"
    by (rule delete_entries(1) [OF assms])
  have none: "filter (selected ids f) ?c' = []"
    unfolding c' by (simp add: filter_empty_conv)
  have same: "filter (\<lambda>e. \<not> selected ids f e) ?c' = ?c'"
    unfolding c' by simp
  have upd: "(collections s')(cid \<mapsto> ?c') = collections s'"
    using delete_entries(3) [OF assms] by (rule map_upd_triv)
  show ?thesis
    using delete_entries(2,3) [OF assms]
    by (simp add: delete_def none same upd del: filter_filter)
qed

lemma delete_succeeds:
  assumes "available s" and "collections s cid = Some c"
  shows "delete s cid ids f =
      Inr (int (length (filter (selected ids f) c)),
           s\<lparr>collections := (collections s)(cid \<mapsto> filter (\<lambda>e. \<not> selected ids f e) c)\<rparr>)"
  using assms by (simp add: delete_def)

lemma delete_fails_iff:
  "(\<exists>err. delete s cid ids f = Inl err) \<longleftrightarrow> \<not> available s \<or> collections s cid = None"
  by (auto simp add: delete_def split: option.splits)

lemma delete_same_present:
  assumes "delete s cid (Some X) f = Inr (n, s')"
    and "\<forall>e \<in> set (entries_of s cid). fst e \<in> set X' \<longleftrightarrow> fst e \<in> set X"
  shows "delete s cid (Some X') f = Inr (n, s')"
proof -
  let ?c = "entries_of s cid"
  have same: "selected (Some X') f e = selected (Some X) f e" if "e \<in> set ?c" for e
    using that assms(2) by (simp add: selected_def)
  have sel: "filter (selected (Some X') f) ?c = filter (selected (Some X) f) ?c"
    by (intro filter_cong refl same)
  have nsel: "filter (\<lambda>e. \<not> selected (Some X') f e) ?c
      = filter (\<lambda>e. \<not> selected (Some X) f e) ?c"
    by (intro filter_cong refl arg_cong [where f = Not] same)
  show ?thesis
    using delete_Inr [OF assms(1)]
    by (simp add: delete_def sel nsel)
qed

lemma search_ids:
  assumes "available s" and "collections s cid = Some c"
  shows "\<exists>rs. search distance s cid q k f = Inr rs
      \<and> (\<forall>r \<in> set rs. \<exists>e \<in> set c. fst e = fst r) \<and> length rs \<le> nat k"
proof -
  let ?ranked = "sort_key (\<lambda>e. distance q (fst (snd e))) (filter (matches f) c)"
  let ?rs = "map (\<lambda>e. (fst e, distance q (fst (snd e)), snd (snd e))) (take (nat k) ?ranked)"
  have sub: "set (take (nat k) ?ranked) \<subseteq> set c"
    using set_take_subset [of "nat k" ?ranked] by auto
  have "\<exists>e \<in> set c. fst e = fst r" if "r \<in> set ?rs" for r
  proof -
    from that obtain e where "e \<in> set (take (nat k) ?ranked)" and "fst r = fst e"
      by auto
    with sub show ?thesis by auto
  qed
  moreover have "search distance s cid q k f = Inr ?rs"
    using assms by (simp add: search_def)
  moreover have "length ?rs \<le> nat k"
    by simp
  ultimately show ?thesis by blast
qed

lemma count_entries:
  assumes "available s" and "collections s cid = Some c"
  shows "count s cid f = Inr (int (length (filter (matches f) c)))"
  using assms by (simp add: count_def)

lemma delete_only_absent:
  assumes "delete s cid (Some X) None = Inr (n, s')"
    and "\<forall>e \<in> set (entries_of s cid). fst e \<notin> set X"
  shows "n = 0" and "entries_of s' cid = entries_of s cid"
proof -
  have none: "\<forall>e \<in> set (entries_of s cid). \<not> selected (Some X) None e"
    using assms(2) by (simp add: selected_def)
  then have "filter (selected (Some X) None) (entries_of s cid) = []"
    by (simp add: filter_empty_conv)
  then show "n = 0"
    using delete_Inr(3) [OF assms(1)] by simp
  have "filter (\<lambda>e. \<not> selected (Some X) None e) (entries_of s cid) = entries_of s cid"
    using none by (simp add: filter_id_conv)
  then show "entries_of s' cid = entries_of s cid"
    using delete_entries(1) [OF assms(1)] by simp
qed

text \<open>
  C6. On an available store, \<open>delete\<close> by an id list \<open>X\<close> (with or without a filter) on
  a collection the store holds does not raise, whether or not the ids of \<open>X\<close> are
  present: it leaves the entries it did not select and returns the number of entries it
  removed. No entry left has an id in \<open>X\<close>. The same call repeated on the resulting
  store returns 0 and changes nothing. With no filter and no id of \<open>X\<close> present it
  returns 0 and leaves the entries as they were; and any id list that names the same
  present ids, in any order and with any absent ids among them, gives the same count and
  the same store. On the resulting store every \<open>search\<close> succeeds with results whose
  ids are outside \<open>X\<close>, and every \<open>count\<close> is the number of matching entries whose id is
  outside \<open>X\<close>.
\<close>

theorem delete_idempotent:
  fixes s :: "('v, 'm) store"
  assumes "available s" and "collections s cid = Some c"
  shows "\<exists>n s'. delete s cid (Some X) filters = Inr (n, s')
    \<and> entries_of s' cid = filter (\<lambda>e. \<not> selected (Some X) filters e) c
    \<and> n = int (length c) - int (length (entries_of s' cid))
    \<and> (\<forall>e \<in> set (entries_of s' cid). fst e \<notin> set X)
    \<and> delete s' cid (Some X) filters = Inr (0, s')
    \<and> (filters = None \<and> (\<forall>e \<in> set c. fst e \<notin> set X)
          \<longrightarrow> n = 0 \<and> entries_of s' cid = c)
    \<and> (\<forall>X'. (\<forall>e \<in> set c. fst e \<in> set X' \<longleftrightarrow> fst e \<in> set X)
          \<longrightarrow> delete s cid (Some X') filters = Inr (n, s'))
    \<and> (\<forall>(distance :: 'v \<Rightarrow> 'v \<Rightarrow> 'r::linorder) q k f.
          \<exists>rs. search distance s' cid q k f = Inr rs
          \<and> (\<forall>r \<in> set rs. fst r \<notin> set X))
    \<and> (\<forall>f. count s' cid f =
          Inr (int (length (filter (\<lambda>e. fst e \<notin> set X \<and> matches f e) (entries_of s' cid)))))"
proof -
  obtain n s' where del: "delete s cid (Some X) filters = Inr (n, s')"
    using delete_succeeds [OF assms] by blast
  have c: "entries_of s cid = c"
    using assms(2) by (simp add: entries_of_def)
  note ent = delete_entries [OF del]
  have left: "entries_of s' cid = filter (\<lambda>e. \<not> selected (Some X) filters e) c"
    using ent(1) by (simp only: c)
  have removed: "n = int (length c) - int (length (entries_of s' cid))"
    using delete_count_removed [OF del] by (simp only: c)
  have gone: "\<forall>e \<in> set (entries_of s' cid). fst e \<notin> set X"
    unfolding ent(1) by (simp add: selected_def)
  have again: "delete s' cid (Some X) filters = Inr (0, s')"
    by (rule delete_again [OF del])
  have only_absent: "filters = None \<and> (\<forall>e \<in> set c. fst e \<notin> set X)
      \<longrightarrow> n = 0 \<and> entries_of s' cid = c"
    using del delete_only_absent [of s cid X n s'] by (simp only: c) blast
  have same: "\<forall>X'. (\<forall>e \<in> set c. fst e \<in> set X' \<longleftrightarrow> fst e \<in> set X)
      \<longrightarrow> delete s cid (Some X') filters = Inr (n, s')"
    using delete_same_present [OF del] by (simp only: c) blast
  have srch: "\<exists>rs. search distance s' cid q k f = Inr rs \<and> (\<forall>r \<in> set rs. fst r \<notin> set X)"
    for distance :: "'v \<Rightarrow> 'v \<Rightarrow> 'r" and q k f
  proof -
    obtain rs where rs: "search distance s' cid q k f = Inr rs"
        "\<forall>r \<in> set rs. \<exists>e \<in> set (entries_of s' cid). fst e = fst r"
      using search_ids [OF ent(2,3)] by blast
    have "\<forall>r \<in> set rs. fst r \<notin> set X"
      using rs(2) gone by metis
    with rs(1) show ?thesis by blast
  qed
  have cnt: "count s' cid f =
      Inr (int (length (filter (\<lambda>e. fst e \<notin> set X \<and> matches f e) (entries_of s' cid))))" for f
  proof -
    have "filter (\<lambda>e. fst e \<notin> set X \<and> matches f e) (entries_of s' cid)
        = filter (matches f) (entries_of s' cid)"
      using gone by (intro filter_cong refl) simp
    then show ?thesis
      using count_entries [OF ent(2,3)] by simp
  qed
  have srch_all: "\<forall>(distance :: 'v \<Rightarrow> 'v \<Rightarrow> 'r) q k f. \<exists>rs. search distance s' cid q k f = Inr rs
      \<and> (\<forall>r \<in> set rs. fst r \<notin> set X)"
    using srch by blast
  have cnt_all: "\<forall>f. count s' cid f =
      Inr (int (length (filter (\<lambda>e. fst e \<notin> set X \<and> matches f e) (entries_of s' cid))))"
    using cnt by blast
  show ?thesis
    by (intro exI [of _ n] exI [of _ s'] conjI del left removed gone again only_absent same
        srch_all cnt_all)
qed

theorem delete_idempotent_witness:
  "available demo
   \<and> collections demo ''kb1'' = Some [(''a'', 1, ''doc1''), (''b'', 5, ''doc1''), (''c'', 9, ''doc2'')]
   \<and> delete demo ''kb1'' (Some [''zz'', ''a'']) None = Inr (1, demo_after)
   \<and> delete demo_after ''kb1'' (Some [''zz'', ''a'']) None = Inr (0, demo_after)
   \<and> delete demo ''kb1'' (Some [''a'', ''yy'', ''a'']) None = Inr (1, demo_after)
   \<and> count demo_after ''kb1'' None = Inr 2"
proof -
  have av: "available demo"
    by (simp add: demo_def)
  have co: "collections demo ''kb1'' =
      Some [(''a'', 1, ''doc1''), (''b'', 5, ''doc1''), (''c'', 9, ''doc2'')]"
    by (simp add: demo_def)
  obtain n s' where t: "delete demo ''kb1'' (Some [''zz'', ''a'']) None = Inr (n, s')"
      "delete s' ''kb1'' (Some [''zz'', ''a'']) None = Inr (0, s')"
      "\<forall>X'. (\<forall>e \<in> set [(''a'', 1, ''doc1''), (''b'', 5, ''doc1''), (''c'', 9::int, ''doc2'')].
          fst e \<in> set X' \<longleftrightarrow> fst e \<in> set [''zz'', ''a''])
        \<longrightarrow> delete demo ''kb1'' (Some X') None = Inr (n, s')"
      "\<forall>f. count s' ''kb1'' f = Inr (int (length (filter
          (\<lambda>e. fst e \<notin> set [''zz'', ''a''] \<and> matches f e) (entries_of s' ''kb1''))))"
    using delete_idempotent [OF av co, of "[''zz'', ''a'']" None] by blast
  have h: "delete demo ''kb1'' (Some [''zz'', ''a'']) None = Inr (1, demo_after)"
    by (simp add: delete_def demo_def demo_after_def selected_def)
  have n: "n = 1" and s': "s' = demo_after"
    using t(1) h by simp_all
  have e: "entries_of demo_after ''kb1'' = [(''b'', 5, ''doc1''), (''c'', 9, ''doc2'')]"
    by (simp add: entries_of_def demo_after_def)
  have again: "delete demo_after ''kb1'' (Some [''zz'', ''a'']) None = Inr (0, demo_after)"
    using t(2) by (simp only: s')
  have "\<forall>e \<in> set [(''a'', 1, ''doc1''), (''b'', 5, ''doc1''), (''c'', 9::int, ''doc2'')].
      fst e \<in> set [''a'', ''yy'', ''a''] \<longleftrightarrow> fst e \<in> set [''zz'', ''a'']"
    by simp
  then have other: "delete demo ''kb1'' (Some [''a'', ''yy'', ''a'']) None = Inr (1, demo_after)"
    using t(3) by (simp only: n s')
  have "count demo_after ''kb1'' None = Inr (int (length (filter
      (\<lambda>e. fst e \<notin> set [''zz'', ''a''] \<and> matches None e) (entries_of demo_after ''kb1''))))"
    using t(4) by (simp only: s')
  then have cnt: "count demo_after ''kb1'' None = Inr 2"
    by (simp add: e matches_def)
  show ?thesis
    by (intro conjI av co h again other cnt)
qed

end
